theory Spec2Isabelle
  imports Main "HOL-Library.Sublist" "HOL-Library.Multiset"
begin

section \<open>Python string operations used by DialogRasaMigrator.py\<close>

text \<open>
  A Python \<open>str\<close> is modelled as a \<open>string\<close> holding its UTF-8 encoding, which is taken
  to be well formed. The tests the program makes on strings (\<open>startswith\<close>, \<open>endswith\<close>,
  \<open>in\<close>, \<open>replace\<close>, \<open>split\<close>) give the same answer on the encoding as on the code
  points: \<open>s.startswith(p)\<close> is \<open>prefix p s\<close>, \<open>s.endswith(p)\<close> is \<open>suffix p s\<close> and
  \<open>p in s\<close> is \<open>sublist p s\<close>. Indices and lengths count code points: a code point is
  one byte that is not a continuation byte (\<open>10xxxxxx\<close>), followed by its continuation
  bytes. \<open>max(..., key=len)\<close> compares prefixes of one string, which the byte length
  orders as the number of code points does.
\<close>

definition is_continuation :: "char \<Rightarrow> bool" where
  "is_continuation c \<longleftrightarrow> digit7 c \<and> \<not> digit6 c"

text \<open>\<open>len(s)\<close>: the number of code points.\<close>

definition py_len :: "string \<Rightarrow> nat" where
  "py_len s = length (filter (\<lambda>c. \<not> is_continuation c) s)"

text \<open>The byte offset at which the code point of index \<open>n\<close> starts (the end, if there is none).\<close>

fun char_offset :: "nat \<Rightarrow> string \<Rightarrow> nat" where
  "char_offset n [] = 0"
| "char_offset n (c # cs) =
     (if is_continuation c then Suc (char_offset n cs)
      else (case n of 0 \<Rightarrow> 0 | Suc m \<Rightarrow> Suc (char_offset m cs)))"

text \<open>The byte offset of the first occurrence of \<open>sub\<close>.\<close>

fun find_at :: "string \<Rightarrow> string \<Rightarrow> nat option" where
  "find_at sub [] = (if sub = [] then Some 0 else None)"
| "find_at sub (c # cs) =
     (if prefix sub (c # cs) then Some 0 else map_option Suc (find_at sub cs))"

text \<open>\<open>s.find(sub)\<close>: the index, in code points, of the first occurrence, or \<open>-1\<close>.\<close>

definition py_find :: "string \<Rightarrow> string \<Rightarrow> int" where
  "py_find s sub = (case find_at sub s of None \<Rightarrow> - 1 | Some k \<Rightarrow> int (py_len (take k s)))"

text \<open>
  \<open>s[:i]\<close>: the first \<open>i\<close> code points; a negative \<open>i\<close> stands for \<open>len(s) + i\<close>, and
  for \<open>0\<close> when that is negative.
\<close>

definition py_slice_to :: "string \<Rightarrow> int \<Rightarrow> string" where
  "py_slice_to s i =
     (let stop = (if i < 0 then py_len s - nat (- i) else nat i)
      in take (char_offset stop s) s)"

text \<open>\<open>s.replace(old, new)\<close>: every non-overlapping occurrence, from the left.\<close>

function py_replace :: "string \<Rightarrow> string \<Rightarrow> string \<Rightarrow> string" where
  "py_replace [] new s = new @ concat (map (\<lambda>c. c # new) s)"
| "py_replace (a # old) new [] = []"
| "py_replace (a # old) new (c # cs) =
     (if prefix (a # old) (c # cs)
      then new @ py_replace (a # old) new (drop (length old) cs)
      else c # py_replace (a # old) new cs)"
  by pat_completeness auto
termination
  by (relation "measure (\<lambda>(old, new, s). length s)") auto

text \<open>\<open>s.replace(old, new, 1)\<close>: the first occurrence only.\<close>

definition py_replace1 :: "string \<Rightarrow> string \<Rightarrow> string \<Rightarrow> string" where
  "py_replace1 old new s =
     (case find_at old s of
        None \<Rightarrow> s
      | Some i \<Rightarrow> take i s @ new @ drop (i + length old) s)"

text \<open>\<open>s.startswith(tuple(xs))\<close>: some member of \<open>xs\<close> is a prefix of \<open>s\<close>.\<close>

definition startswith_any :: "string \<Rightarrow> string list \<Rightarrow> bool" where
  "startswith_any s xs = list_ex (\<lambda>p. prefix p s) xs"

text \<open>\<open>max(xs, key=len)\<close> on a non-empty list: the first element of greatest length.\<close>

fun max_by_len :: "string \<Rightarrow> string list \<Rightarrow> string" where
  "max_by_len best [] = best"
| "max_by_len best (x # xs) =
     (if length best < length x then max_by_len x xs else max_by_len best xs)"

section \<open>Configuration\<close>

definition DEFAULT_GROUP :: string where
  "DEFAULT_GROUP = ''OTHER''"

section \<open>Auxiliary functions\<close>

text \<open>
  \<open>is_usersays\<close>: the regular expression \<open>_usersays_.*\.json$\<close> is searched in the
  file name. \<open>.\<close> matches any character but a newline, and \<open>$\<close> matches at the end of
  the string or before a newline that ends it.
\<close>

definition usersays_tail :: "string \<Rightarrow> bool" where
  "usersays_tail t =
     ((suffix ''.json'' t \<and> CHR 0x0A \<notin> set (take (length t - 5) t)) \<or>
      (suffix (''.json'' @ [CHR 0x0A]) t \<and> CHR 0x0A \<notin> set (take (length t - 6) t)))"

fun is_usersays :: "string \<Rightarrow> bool" where
  "is_usersays [] = False"
| "is_usersays (c # cs) =
     ((prefix ''_usersays_'' (c # cs) \<and> usersays_tail (drop 10 (c # cs))) \<or> is_usersays cs)"

text \<open>\<open>filename.split('-', 1)\<close>: \<open>has_prefix\<close> is \<open>len(parts) > 1\<close>, \<open>prefix_of\<close> is \<open>parts[0]\<close>.\<close>

definition has_prefix :: "string \<Rightarrow> bool" where
  "has_prefix filename = (CHR ''-'' \<in> set filename)"

definition prefix_of :: "string \<Rightarrow> string" where
  "prefix_of filename = takeWhile (\<lambda>c. c \<noteq> CHR ''-'') filename"

text \<open>
  \<open>prefix_count[prefix] = prefix_count.get(prefix, 0) + 1\<close> on a dictionary, which keeps
  its keys in insertion order: an association list.
\<close>

fun bump :: "string \<Rightarrow> (string \<times> nat) list \<Rightarrow> (string \<times> nat) list" where
  "bump p [] = [(p, 1)]"
| "bump p ((q, c) # rest) = (if p = q then (q, c + 1) # rest else (q, c) # bump p rest)"

text \<open>The loop of \<open>extract_groups\<close> over the file names: \<open>(prefix_count, no_prefix_count)\<close>.\<close>

fun count_prefixes :: "string list \<Rightarrow> (string \<times> nat) list \<times> nat \<Rightarrow> (string \<times> nat) list \<times> nat" where
  "count_prefixes [] acc = acc"
| "count_prefixes (filename # rest) (prefix_count, no_prefix_count) =
     (if \<not> is_usersays filename then count_prefixes rest (prefix_count, no_prefix_count)
      else if has_prefix filename
      then count_prefixes rest (bump (prefix_of filename) prefix_count, no_prefix_count)
      else count_prefixes rest (prefix_count, no_prefix_count + 1))"

definition extract_groups :: "string list \<Rightarrow> string list" where
  "extract_groups filenames =
     (let (prefix_count, no_prefix_count0) = count_prefixes filenames ([], 0);
          groups0 = map fst (filter (\<lambda>(p, c). c \<ge> 2) prefix_count);
          no_prefix_count = no_prefix_count0 + length (filter (\<lambda>(p, c). c < 2) prefix_count);
          groups = (if no_prefix_count \<ge> 2 then groups0 @ [DEFAULT_GROUP] else groups0)
      in if length groups = 1 \<and> no_prefix_count = 0 then [] else groups)"

text \<open>\<open>remove_substring\<close>: drop \<open>substr\<close> from the end of \<open>s\<close> when \<open>s\<close> ends with it.\<close>

definition remove_substring :: "string \<Rightarrow> string \<Rightarrow> string" where
  "remove_substring s substr =
     (if suffix substr s then py_slice_to s (- int (py_len substr)) else s)"

text \<open>\<open>add_group_to_intent_name\<close>, reading the global \<open>INTENT_LIST\<close>.\<close>

definition matched_groups :: "string list \<Rightarrow> string \<Rightarrow> string list" where
  "matched_groups intent_list intent_name = filter (\<lambda>group. prefix group intent_name) intent_list"

definition add_group_to_intent_name :: "string list \<Rightarrow> string \<Rightarrow> string" where
  "add_group_to_intent_name intent_list intent_name =
     (case matched_groups intent_list intent_name of
        g # gs \<Rightarrow>
          (let intent_group = max_by_len g gs
           in py_replace1 (intent_group @ ''-'') (intent_group @ ''/'') intent_name)
      | [] \<Rightarrow>
          (if DEFAULT_GROUP \<in> set intent_list then DEFAULT_GROUP @ ''/'' @ intent_name
           else intent_name))"

text \<open>
  \<open>format_text\<close>. The first replacement of the source maps an apostrophe to itself; the
  curly double quotes U+201C and U+201D are the byte sequences E2 80 9C and E2 80 9D.
\<close>

definition format_text :: "string \<Rightarrow> string" where
  "format_text text0 =
     (let text1 = py_replace [CHR 0x27] [CHR 0x27] text0;
          text2 = py_replace [CHR 0xE2, CHR 0x80, CHR 0x9D] [CHR 0x22]
                    (py_replace [CHR 0xE2, CHR 0x80, CHR 0x9C] [CHR 0x22] text1)
      in py_replace [CHR 0x0A] '' '' text2)"

text \<open>\<open>str(n)\<close> for the step counter inside an f-string.\<close>

function str_nat :: "nat \<Rightarrow> string" where
  "str_nat n =
     (if n < 10 then [''0123456789'' ! n]
      else str_nat (n div 10) @ [''0123456789'' ! (n mod 10)])"
  by pat_completeness auto
termination
  by (relation "measure (\<lambda>n. n)") auto

declare str_nat.simps [simp del]

section \<open>Global state and the target documents\<close>

text \<open>
  The program opens every file in text mode without a \<open>newline\<close> argument. Reading
  turns each \<open>\r\n\<close> and each remaining \<open>\r\<close> into \<open>\n\<close>; writing turns each \<open>\n\<close> into
  the line separator of the platform, \<open>os.linesep\<close>. The files are taken to be encoded
  in UTF-8, the encoding of the locale.
\<close>

fun read_text :: "string \<Rightarrow> string" where
  "read_text [] = []"
| "read_text [c] = (if c = CHR 0x0D then [CHR 0x0A] else [c])"
| "read_text (c # d # cs) =
     (if c = CHR 0x0D
      then (if d = CHR 0x0A then CHR 0x0A # read_text cs else CHR 0x0A # read_text (d # cs))
      else c # read_text (d # cs))"

definition write_text :: "string \<Rightarrow> string \<Rightarrow> string" where
  "write_text linesep text0 = concat (map (\<lambda>c. if c = CHR 0x0A then linesep else [c]) text0)"

text \<open>
  The module globals \<open>INTENT_LIST\<close>, \<open>ENTITY_LIST\<close> and \<open>RULES_CONTENT\<close>; the bytes of
  the three target files the program reads and rewrites (\<open>None\<close>: the file does not
  exist); and \<open>os.linesep\<close>, which no function changes.
\<close>

record state =
  INTENT_LIST :: "string list"
  ENTITY_LIST :: "string list"
  RULES_CONTENT :: string
  nlu_yml :: "string option"
  domain_yml :: "string option"
  rules_yml :: "string option"
  os_linesep :: string

text \<open>
  \<open>replace_in_file\<close> is only ever called on \<open>rasa/data/nlu.yml\<close>: a missing file is
  reported and left missing.
\<close>

definition replace_in_file :: "string \<Rightarrow> string \<Rightarrow> state \<Rightarrow> state" where
  "replace_in_file old_text new_text st =
     st\<lparr>nlu_yml :=
          map_option (\<lambda>filedata. write_text (os_linesep st) (py_replace old_text new_text (read_text filedata)))
            (nlu_yml st)\<rparr>"

text \<open>\<open>intent_name.split('/', 1)[-1]\<close>: what follows the first slash, or the whole name.\<close>

definition after_slash :: "string \<Rightarrow> string" where
  "after_slash s = (if CHR ''/'' \<in> set s then tl (dropWhile (\<lambda>c. c \<noteq> CHR ''/'') s) else s)"

text \<open>
  The registration test shared by \<open>generate_nlu\<close> and \<open>rename_intent\<close>:
  \<open>if not intent_name.startswith(tuple(INTENT_LIST)): INTENT_LIST.append(intent_name)\<close>.
\<close>

definition register_intent :: "string \<Rightarrow> string list \<Rightarrow> string list" where
  "register_intent intent_name intent_list =
     (if \<not> startswith_any intent_name intent_list then intent_list @ [intent_name]
      else intent_list)"

definition rename_intent :: "string \<Rightarrow> state \<Rightarrow> string \<times> state" where
  "rename_intent intent_name st =
     (let old_name = intent_name;
          new_name = after_slash intent_name;
          st1 = st\<lparr>INTENT_LIST := register_intent new_name (INTENT_LIST st)\<rparr>
      in (new_name, replace_in_file old_name new_name st1))"

definition rename_response :: "string \<Rightarrow> string \<Rightarrow> string \<Rightarrow> string \<times> string" where
  "rename_response response_name intent_name responses_content =
     (let old_resp = response_name;
          new_resp = ''utter_'' @ intent_name
      in (new_resp, py_replace old_resp new_resp responses_content))"

definition create_new_rule :: "string \<Rightarrow> string \<Rightarrow> string \<Rightarrow> string" where
  "create_new_rule rules response_name intent_name =
     rules @ ''\<newline>- rule: Respond to '' @ intent_name @ ''\<newline>''
           @ ''  steps:\<newline>''
           @ ''  - intent: '' @ intent_name @ ''\<newline>''
           @ ''  - action: '' @ response_name @ ''\<newline>''"

section \<open>Response payloads\<close>

text \<open>
  One entry of \<open>response['messages']\<close>: its \<open>lang\<close>, its \<open>type\<close> (\<open>'0'\<close> plain text,
  \<open>'4'\<close> rich payload), its \<open>speech\<close>, a list of strings (empty when the key is absent),
  and its \<open>payload\<close>, whose \<open>buttons\<close> and \<open>images\<close> keys are each present or absent. A
  button holds its \<open>text\<close> and its \<open>value\<close>, an image its \<open>imageUrl\<close>.
\<close>

record button =
  b_text :: string
  b_value :: string

record rich_payload =
  p_buttons :: "button list option"
  p_images :: "string list option"

record message =
  m_lang :: string
  m_type :: string
  m_speech :: "string list"
  m_payload :: rich_payload

text \<open>The variables of the message loop of \<open>get_responses\<close>.\<close>

record vars =
  responses_content :: string
  after_text :: bool
  steps_iter :: nat
  intent_name :: string
  response_name :: string

definition button_markup :: "button list \<Rightarrow> string" where
  \<open>button_markup bs =
     concat (map (\<lambda>url. ''<br><a href="'' @ b_value url @ ''">'' @ format_text (b_text url) @ ''</a>'') bs)\<close>

definition process_buttons :: "button list \<Rightarrow> state \<times> vars \<Rightarrow> state \<times> vars" where
  "process_buttons bs sv =
     (let (st, v) = sv;
          (st1, v1) =
            (if after_text v
             then (st, v\<lparr>responses_content := py_slice_to (responses_content v) (- 2)\<rparr>)
             else
               (let (st2, v2) =
                      (if steps_iter v = 0
                       then
                         (let (iname, st3) = rename_intent (intent_name v) st;
                              (rname, rc) = rename_response (response_name v) iname (responses_content v)
                          in (st3\<lparr>RULES_CONTENT := create_new_rule (RULES_CONTENT st3) rname iname\<rparr>,
                              v\<lparr>responses_content := rc, intent_name := iname, response_name := rname\<rparr>))
                       else (st, v));
                    n = steps_iter v2 + 1
                in (st2\<lparr>RULES_CONTENT := RULES_CONTENT st2
                          @ ''  - action: '' @ response_name v2 @ ''_'' @ str_nat n @ ''\<newline>''\<rparr>,
                    v2\<lparr>steps_iter := n,
                       responses_content := responses_content v2
                          @ ''  '' @ response_name v2 @ ''_'' @ str_nat n @ '':\<newline>  - text: ''
                          @ [CHR 0x27]\<rparr>)))
      in (st1, v1\<lparr>responses_content := responses_content v1 @ button_markup bs @ [CHR 0x27, CHR 0x0A],
                  after_text := True\<rparr>))"

definition process_images :: "string list \<Rightarrow> vars \<Rightarrow> vars" where
  \<open>process_images imgs v =
     v\<lparr>responses_content := responses_content v
          @ concat (map (\<lambda>image_url. ''    image: "'' @ image_url @ ''"\<newline>'') imgs),
       after_text := False\<rparr>\<close>

definition text_steps :: "string list \<Rightarrow> string" where
  "text_steps examples =
     concat (map (\<lambda>example. ''  - text: '' @ [CHR 0x27] @ format_text example @ [CHR 0x27, CHR 0x0A]) examples)"

text \<open>One iteration of \<open>for message in response['messages']\<close>.\<close>

definition message_step :: "string \<Rightarrow> message \<Rightarrow> state \<times> vars \<Rightarrow> state \<times> vars" where
  "message_step language m sv =
     (let (st, v) = sv in
      if m_lang m \<noteq> language then (st, v)
      else if m_type m = ''0'' \<and> m_speech m \<noteq> []
      then (st, v\<lparr>responses_content := responses_content v @ text_steps (m_speech m),
                  after_text := True\<rparr>)
      else if m_type m = ''4''
      then
        (let (st1, v1) = (case p_buttons (m_payload m) of
                            Some bs \<Rightarrow> process_buttons bs (st, v)
                          | None \<Rightarrow> (st, v));
             v2 = (case p_images (m_payload m) of
                     Some imgs \<Rightarrow> process_images imgs v1
                   | None \<Rightarrow> v1)
         in (st1, v2))
      else (st, v))"

fun process_messages :: "string \<Rightarrow> message list \<Rightarrow> state \<times> vars \<Rightarrow> state \<times> vars" where
  "process_messages language [] sv = sv"
| "process_messages language (m # ms) sv = process_messages language ms (message_step language m sv)"

section \<open>The intent directory\<close>

text \<open>
  A file of \<open>dialogflow/intents\<close> as \<open>json.load\<close> returns it: an intent file is an
  object whose \<open>responses\<close> is a list of responses, each holding its \<open>messages\<close>; a
  training-phrase file is a list of examples, each holding the \<open>text\<close> of its \<open>data\<close>
  parts. \<open>os.listdir\<close> gives the files in an order of its own: a list.
\<close>

datatype file_content =
  Intent "message list list"
| Usersays "string list list"

record intent_dir_file =
  f_name :: string
  f_content :: file_content

section \<open>get_responses\<close>

text \<open>
  The body of the loop over the directory for one file. \<open>None\<close>: the body raised
  (\<open>response_data['responses'][0]\<close> on an empty list, or on a file that is a list). The
  globals keep what was written to them before the exception.
\<close>

definition responses_of_file ::
  "string \<Rightarrow> intent_dir_file \<Rightarrow> state \<times> string \<Rightarrow> state \<times> string option" where
  "responses_of_file language f sr =
     (let (st, rc) = sr in
      if is_usersays (f_name f) then (st, Some rc)
      else
        (case f_content f of
           Usersays _ \<Rightarrow> (st, None)
         | Intent responses \<Rightarrow>
             (let iname = add_group_to_intent_name (INTENT_LIST st) (remove_substring (f_name f) ''.json'');
                  rname = ''utter_'' @ iname;
                  rc1 = rc @ ''  '' @ rname @ '':\<newline>''
              in case responses of
                   [] \<Rightarrow> (st, None)
                 | response # _ \<Rightarrow>
                     (let (st1, v1) = process_messages language response
                            (st, \<lparr>responses_content = rc1, after_text = False, steps_iter = 0,
                                  intent_name = iname, response_name = rname\<rparr>)
                      in (st1, Some (responses_content v1))))))"

fun responses_loop ::
  "string \<Rightarrow> intent_dir_file list \<Rightarrow> state \<times> string \<Rightarrow> state \<times> string option" where
  "responses_loop language [] (st, rc) = (st, Some rc)"
| "responses_loop language (f # fs) (st, rc) =
     (case responses_of_file language f (st, rc) of
        (st1, None) \<Rightarrow> (st1, None)
      | (st1, Some rc1) \<Rightarrow> responses_loop language fs (st1, rc1))"

definition get_responses :: "string \<Rightarrow> intent_dir_file list \<Rightarrow> state \<Rightarrow> state \<times> string option" where
  "get_responses language files st = responses_loop language files (st, ''responses:\<newline>'')"

section \<open>Main functions\<close>

subsection \<open>generate_nlu\<close>

definition usersays_suffix :: "string \<Rightarrow> string" where
  "usersays_suffix language = ''_usersays_'' @ language @ ''.json''"

definition nlu_block :: "string \<Rightarrow> string list list \<Rightarrow> string" where
  "nlu_block iname examples =
     ''- intent: '' @ iname @ ''\<newline>  examples: |\<newline>''
     @ concat (map (\<lambda>example. ''    - '' @ concat example @ ''\<newline>'') examples)
     @ ''\<newline>''"

text \<open>
  The loop of \<open>generate_nlu\<close>: \<open>(INTENT_LIST, new_nlu_data)\<close>, the second \<open>None\<close> when
  reading the examples raised (the file is an object, not a list of examples), which
  happens after the intent of the file has been registered.
\<close>

fun nlu_loop ::
  "string \<Rightarrow> intent_dir_file list \<Rightarrow> string list \<times> string \<Rightarrow> string list \<times> string option" where
  "nlu_loop language [] (il, new_nlu_data) = (il, Some new_nlu_data)"
| "nlu_loop language (f # fs) (il, new_nlu_data) =
     (if suffix (usersays_suffix language) (f_name f)
      then
        (let iname = add_group_to_intent_name il
                       (remove_substring (f_name f) (usersays_suffix language));
             il1 = register_intent iname il
         in case f_content f of
              Intent _ \<Rightarrow> (il1, None)
            | Usersays intent_data \<Rightarrow>
                nlu_loop language fs (il1, new_nlu_data @ nlu_block iname intent_data))
      else nlu_loop language fs (il, new_nlu_data))"

text \<open>The splice into the text read from \<open>nlu.yml\<close>.\<close>

definition merge_nlu :: "string \<Rightarrow> string \<Rightarrow> string" where
  "merge_nlu nlu_data new_nlu_data =
     (let start_index = py_find nlu_data ''nlu:\<newline>''
      in py_slice_to nlu_data start_index @ new_nlu_data)"

text \<open>
  An exception anywhere in the \<open>try\<close> block, a missing \<open>nlu.yml\<close> among them, is printed
  and the file is not written.
\<close>

definition generate_nlu :: "string \<Rightarrow> intent_dir_file list \<Rightarrow> state \<Rightarrow> state" where
  "generate_nlu language files st =
     (case nlu_loop language files (INTENT_LIST st, ''nlu:\<newline>'') of
        (il, None) \<Rightarrow> st\<lparr>INTENT_LIST := il\<rparr>
      | (il, Some new_nlu_data) \<Rightarrow>
          (case nlu_yml st of
             None \<Rightarrow> st\<lparr>INTENT_LIST := il\<rparr>
           | Some nlu_file \<Rightarrow>
               st\<lparr>INTENT_LIST := il,
                  nlu_yml := Some (write_text (os_linesep st)
                                     (merge_nlu (read_text nlu_file) new_nlu_data))\<rparr>))"

subsection \<open>generate_domain\<close>

text \<open>\<open>'\n'.join(xs)\<close>.\<close>

fun join_lines :: "string list \<Rightarrow> string" where
  "join_lines [] = []"
| "join_lines [x] = x"
| "join_lines (x # y # ys) = x @ ''\<newline>'' @ join_lines (y # ys)"

definition intents_content :: "string list \<Rightarrow> string" where
  "intents_content il =
     ''intents:\<newline>'' @ join_lines (map (\<lambda>intent. ''- '' @ intent) il) @ ''\<newline>\<newline>''"

definition entities_content :: "string list \<Rightarrow> string" where
  "entities_content el =
     ''entities:\<newline>'' @ join_lines (map (\<lambda>entity. ''- '' @ entity) el) @ ''\<newline>\<newline>''"

definition version_header :: string where
  \<open>version_header = ''version: "3.1"\<newline>''\<close>

definition merge_domain :: "string \<Rightarrow> string \<Rightarrow> string" where
  "merge_domain filedata new_sections =
     (let start_index = py_find filedata ''intents:\<newline>''
      in if start_index = - 1 then filedata @ new_sections
         else py_slice_to filedata start_index @ new_sections)"

definition generate_domain :: "string \<Rightarrow> intent_dir_file list \<Rightarrow> state \<Rightarrow> state" where
  "generate_domain language files st =
     (case get_responses language files st of
        (st1, None) \<Rightarrow> st1
      | (st1, Some rc) \<Rightarrow>
          (let new_sections = intents_content (INTENT_LIST st1) @ entities_content (ENTITY_LIST st1) @ rc;
               filedata = (case domain_yml st1 of None \<Rightarrow> version_header | Some d \<Rightarrow> read_text d)
           in st1\<lparr>domain_yml := Some (write_text (os_linesep st1)
                                          (merge_domain filedata new_sections))\<rparr>))"

subsection \<open>generate_rules\<close>

definition default_rule :: "string \<Rightarrow> string" where
  "default_rule intent =
     ''\<newline>- rule: Respond to '' @ intent @ ''\<newline>''
     @ ''  steps:\<newline>''
     @ ''  - intent: '' @ intent @ ''\<newline>''
     @ ''  - action: utter_'' @ intent @ ''\<newline>''"

text \<open>The loop over \<open>INTENT_LIST\<close>; \<open>RULES_CONTENT\<close> is not changed by it.\<close>

fun rules_loop :: "string \<Rightarrow> string list \<Rightarrow> string \<Rightarrow> string" where
  "rules_loop rules_content [] new_rules = new_rules"
| "rules_loop rules_content (intent # rest) new_rules =
     (if sublist intent rules_content then rules_loop rules_content rest new_rules
      else rules_loop rules_content rest (new_rules @ default_rule intent))"

definition new_rules :: "string list \<Rightarrow> string \<Rightarrow> string" where
  "new_rules il rules_content = rules_loop rules_content il (''rules:\<newline>'' @ rules_content)"

definition merge_rules :: "string option \<Rightarrow> string \<Rightarrow> string" where
  "merge_rules rules_file nr =
     (case rules_file of
        Some rules_data \<Rightarrow>
          (let start_index = py_find rules_data ''rules:\<newline>''
           in if start_index \<noteq> - 1 then py_slice_to rules_data start_index @ nr
              else version_header @ nr)
      | None \<Rightarrow> version_header @ nr)"

definition generate_rules :: "state \<Rightarrow> state" where
  "generate_rules st =
     st\<lparr>rules_yml :=
          Some (write_text (os_linesep st)
                  (merge_rules (map_option read_text (rules_yml st))
                     (new_rules (INTENT_LIST st) (RULES_CONTENT st))))\<rparr>"

subsection \<open>main\<close>

text \<open>
  \<open>ok_empty_files\<close> walks the names \<open>os.listdir\<close> gave it. An intent file with no text
  response (no message of type \<open>'0'\<close> with a non-empty \<open>speech\<close>, in any response and
  any language) makes \<open>handle_empty_file\<close> ask; \<open>answers\<close> holds what the user ends up
  answering for each file, \<open>True\<close> for yes. On yes the file and its training-phrase file
  are removed; on no the program exits. \<open>None\<close>: the program stopped, at \<open>sys.exit\<close> or
  at an exception nothing catches (a file removed earlier in the walk, or a file that is
  a list where an object is read).
\<close>

definition has_text_response :: "message list list \<Rightarrow> bool" where
  "has_text_response responses =
     list_ex (\<lambda>response. list_ex (\<lambda>m. m_type m = ''0'' \<and> m_speech m \<noteq> []) response) responses"

fun ok_empty_loop ::
  "(string \<Rightarrow> bool) \<Rightarrow> string \<Rightarrow> string list \<Rightarrow> intent_dir_file list
     \<Rightarrow> intent_dir_file list option" where
  "ok_empty_loop answers language [] files = Some files"
| "ok_empty_loop answers language (response_file # names) files =
     (if is_usersays response_file then ok_empty_loop answers language names files
      else
        (case find (\<lambda>f. f_name f = response_file) files of
           None \<Rightarrow> None
         | Some f \<Rightarrow>
             (case f_content f of
                Usersays _ \<Rightarrow> None
              | Intent responses \<Rightarrow>
                  if has_text_response responses then ok_empty_loop answers language names files
                  else if answers response_file
                  then ok_empty_loop answers language names
                         (filter (\<lambda>f. f_name f \<noteq> response_file \<and>
                                       f_name f \<noteq> py_replace ''.json'' (usersays_suffix language) response_file)
                            files)
                  else None)))"

definition ok_empty_files ::
  "(string \<Rightarrow> bool) \<Rightarrow> string \<Rightarrow> intent_dir_file list \<Rightarrow> intent_dir_file list option" where
  "ok_empty_files answers language files = ok_empty_loop answers language (map f_name files) files"

text \<open>
  \<open>initialize_migration_setup\<close>: \<open>set_language_setting\<close> raises when the language is
  missing or empty; \<open>INTENT_LIST\<close> is set from the names of the directory as it is before
  \<open>ok_empty_files\<close> runs; the result holds the directory as \<open>ok_empty_files\<close> leaves it.
  The answer to \<open>ignore_sys\<close> only reaches \<open>generate_synonyms\<close>, which fills
  \<open>ENTITY_LIST\<close> from the entity directory; both are outside the model, and \<open>ENTITY_LIST\<close>
  is taken as \<open>generate_synonyms\<close> leaves it.
\<close>

definition initialize_migration_setup ::
  "(string \<Rightarrow> bool) \<Rightarrow> string \<Rightarrow> intent_dir_file list \<Rightarrow> state
     \<Rightarrow> (state \<times> intent_dir_file list) option" where
  "initialize_migration_setup answers language files st =
     (if language = [] then None
      else
        (case ok_empty_files answers language files of
           None \<Rightarrow> None
         | Some files1 \<Rightarrow> Some (st\<lparr>INTENT_LIST := extract_groups (map f_name files)\<rparr>, files1)))"

definition main ::
  "(string \<Rightarrow> bool) \<Rightarrow> string \<Rightarrow> intent_dir_file list \<Rightarrow> state \<Rightarrow> state option" where
  "main answers language files st =
     (case initialize_migration_setup answers language files st of
        None \<Rightarrow> None
      | Some (st1, files1) \<Rightarrow>
          Some (generate_rules (generate_domain language files1 (generate_nlu language files1 st1))))"

section \<open>Auxiliary notions for the statements\<close>

text \<open>
  Two states hold the same domain document, rules document, entity list and line
  separator.
\<close>

definition same_documents :: "state \<Rightarrow> state \<Rightarrow> bool" where
  "same_documents st st' \<longleftrightarrow>
     domain_yml st' = domain_yml st \<and> rules_yml st' = rules_yml st \<and>
     ENTITY_LIST st' = ENTITY_LIST st \<and> os_linesep st' = os_linesep st"


definition bare_state :: state where
  "bare_state =
     \<lparr>INTENT_LIST = [], ENTITY_LIST = [], RULES_CONTENT = [],
      nlu_yml = Some ''# corpus notes\<newline>'',
      domain_yml = Some ''# domain notes\<newline>'',
      rules_yml = Some ''# rule notes\<newline>'',
      os_linesep = ''\<newline>''\<rparr>"


text \<open>
  The Grouping Analyzer as the specification words it, to be compared with
  \<open>extract_groups\<close>. The training-phrase file names are those \<open>is_usersays\<close> accepts;
  the tally of a prefix counts the training-phrase names that have a separator and that
  prefix before the first one; a name is ungrouped when it has no separator or its
  prefix has a tally below two; the recognized prefixes are those with a tally of two
  or more.
\<close>

definition training_files :: "string list \<Rightarrow> string list" where
  "training_files filenames = filter is_usersays filenames"

definition tally :: "string list \<Rightarrow> string \<Rightarrow> nat" where
  "tally filenames p =
     length (filter (\<lambda>f. has_prefix f \<and> prefix_of f = p) (training_files filenames))"

definition ungrouped_count :: "string list \<Rightarrow> nat" where
  "ungrouped_count filenames =
     length (filter (\<lambda>f. \<not> has_prefix f \<or> tally filenames (prefix_of f) < 2)
               (training_files filenames))"

definition recognized_prefixes :: "string list \<Rightarrow> string list" where
  "recognized_prefixes filenames =
     filter (\<lambda>p. 2 \<le> tally filenames p)
       (remdups (map prefix_of (filter has_prefix (training_files filenames))))"

text \<open>The tally read over every file name of the list, whatever its form.\<close>

definition tally_of_all_names :: "string list \<Rightarrow> string \<Rightarrow> nat" where
  "tally_of_all_names filenames p =
     length (filter (\<lambda>f. has_prefix f \<and> prefix_of f = p) filenames)"

text \<open>The value \<open>prefix_count.get(p, 0)\<close> of the dictionary.\<close>

definition count_of :: "(string \<times> nat) list \<Rightarrow> string \<Rightarrow> nat" where
  "count_of prefix_count p = (case map_of prefix_count p of None \<Rightarrow> 0 | Some c \<Rightarrow> c)"

text \<open>The file names of the example scenario, as written and as training-phrase files.\<close>

definition scenario_names_as_written :: "string list" where
  "scenario_names_as_written =
     [''greet-hello.json'', ''greet-hello.json'', ''greet-hello.json'',
      ''greet-bye.json'', ''greet-bye.json'', ''faq.json'']"

definition scenario_training_names :: "string list" where
  "scenario_training_names =
     [''greet-hello_usersays_en.json'', ''greet-hello_usersays_en.json'',
      ''greet-hello_usersays_en.json'', ''greet-bye_usersays_en.json'',
      ''greet-bye_usersays_en.json'', ''faq_usersays_en.json'']"

text \<open>
  The payload variants of the data model, read on a message: a text payload of the
  configured language carrying the strings \<open>ss\<close>, and a rich payload of the configured
  language carrying the buttons \<open>bs\<close> and no images.
\<close>

definition text_payload :: "string \<Rightarrow> message \<Rightarrow> string list \<Rightarrow> bool" where
  "text_payload language m ss \<longleftrightarrow> m_lang m = language \<and> m_type m = ''0'' \<and> m_speech m = ss"

definition buttons_payload :: "string \<Rightarrow> message \<Rightarrow> button list \<Rightarrow> bool" where
  "buttons_payload language m bs \<longleftrightarrow>
     m_lang m = language \<and> m_type m = ''4'' \<and>
     p_buttons (m_payload m) = Some bs \<and> p_images (m_payload m) = None"

text \<open>The payload sequence a response carries in the configured language.\<close>

definition matched_language :: "string \<Rightarrow> message list \<Rightarrow> message list" where
  "matched_language language response = filter (\<lambda>m. m_lang m = language) response"

text \<open>Messages and loop variables of the example scenarios, for the intent \<open>info\<close>.\<close>

definition text_message :: "string list \<Rightarrow> message" where
  "text_message ss =
     \<lparr>m_lang = ''en'', m_type = ''0'', m_speech = ss,
      m_payload = \<lparr>p_buttons = None, p_images = None\<rparr>\<rparr>"

definition buttons_message :: "button list \<Rightarrow> message" where
  "buttons_message bs =
     \<lparr>m_lang = ''en'', m_type = ''4'', m_speech = [],
      m_payload = \<lparr>p_buttons = Some bs, p_images = None\<rparr>\<rparr>"

definition images_message :: "string list \<Rightarrow> message" where
  "images_message imgs =
     \<lparr>m_lang = ''en'', m_type = ''4'', m_speech = [],
      m_payload = \<lparr>p_buttons = None, p_images = Some imgs\<rparr>\<rparr>"

definition visit_button :: button where
  "visit_button = \<lparr>b_text = ''Visit'', b_value = ''http://x''\<rparr>"

definition empty_state :: state where
  "empty_state =
     \<lparr>INTENT_LIST = [], ENTITY_LIST = [], RULES_CONTENT = [],
      nlu_yml = None, domain_yml = None, rules_yml = None, os_linesep = ''\<newline>''\<rparr>"

definition info_vars :: vars where
  "info_vars =
     \<lparr>responses_content = ''responses:\<newline>  utter_info:\<newline>'', after_text = False,
      steps_iter = 0, intent_name = ''info'', response_name = ''utter_info''\<rparr>"

text \<open>
  Two intent files agree on their name and on the first entry of their \<open>responses\<close>
  list; the later entries are free.
\<close>

definition agree_on_first_response :: "intent_dir_file \<Rightarrow> intent_dir_file \<Rightarrow> bool" where
  "agree_on_first_response f1 f2 \<longleftrightarrow>
     f_name f1 = f_name f2 \<and>
     (case (f_content f1, f_content f2) of
        (Intent (r1 # rest1), Intent (r2 # rest2)) \<Rightarrow> r1 = r2
      | _ \<Rightarrow> False)"

text \<open>
  An intent directory: the group \<open>g\<close> with the intents \<open>g-a\<close> and \<open>g-b\<close>, and the
  single intent \<open>to\<close>. The response of \<open>g-a\<close> is a button payload, then a text; every
  intent file has a text response, so \<open>ok_empty_files\<close> asks nothing.
\<close>

definition sample_directory :: "intent_dir_file list" where
  "sample_directory =
     [\<lparr>f_name = ''g-a_usersays_en.json'', f_content = Usersays [[''hi'', '' there'']]\<rparr>,
      \<lparr>f_name = ''g-b_usersays_en.json'', f_content = Usersays [[''bye'']]\<rparr>,
      \<lparr>f_name = ''to_usersays_en.json'', f_content = Usersays [[''where to'']]\<rparr>,
      \<lparr>f_name = ''g-a.json'',
       f_content = Intent [[buttons_message [visit_button], text_message [''Hi'']]]\<rparr>,
      \<lparr>f_name = ''g-b.json'', f_content = Intent [[text_message [''Bye'']]]\<rparr>,
      \<lparr>f_name = ''to.json'', f_content = Intent [[text_message [''There'']]]\<rparr>]"


definition sample_rules_content :: string where
  "sample_rules_content =
     ''\<newline>- rule: Respond to a\<newline>  steps:\<newline>  - intent: a\<newline>  - action: utter_a\<newline>  - action: utter_a_1\<newline>''"



section \<open>Properties\<close>

subsection \<open>Searching and slicing\<close>

lemma prefix_append_short:
  "prefix xs (ys @ zs) \<Longrightarrow> length xs \<le> length ys \<Longrightarrow> prefix xs ys"
  by (auto simp: prefix_append)


lemma find_at_None: "find_at sub s = None \<longleftrightarrow> \<not> sublist sub s"
proof (induction s)
  case Nil
  then show ?case by simp
next
  case (Cons c cs)
  then show ?case by (cases sub) (auto simp: sublist_Cons_right)
qed

text \<open>A string that contains \<open>sub\<close> splits at the first occurrence of \<open>sub\<close>.\<close>

lemma first_occurrence_exists:
  "sublist sub s \<Longrightarrow> sub \<noteq> [] \<Longrightarrow>
   \<exists>pre post. s = pre @ sub @ post \<and> \<not> sublist sub (pre @ butlast sub)"
proof (induction s)
  case Nil
  then show ?case by simp
next
  case (Cons c cs)
  show ?case
  proof (cases "prefix sub (c # cs)")
    case True
    then obtain post where "c # cs = [] @ sub @ post"
      by (auto simp: prefix_def)
    moreover have "\<not> sublist sub ([] @ butlast sub)"
      using Cons.prems(2) sublist_length_le [of sub "butlast sub"] by (cases sub) auto
    ultimately show ?thesis
      by blast
  next
    case False
    then have "sublist sub cs"
      using Cons.prems(1) by (simp add: sublist_Cons_right)
    then obtain pre post where p: "cs = pre @ sub @ post" "\<not> sublist sub (pre @ butlast sub)"
      using Cons.IH Cons.prems(2) by blast
    have "\<not> prefix sub ((c # pre) @ butlast sub)"
    proof
      assume "prefix sub ((c # pre) @ butlast sub)"
      then have "prefix sub (((c # pre) @ butlast sub) @ (last sub # post))"
        using prefix_prefix by blast
      moreover have "((c # pre) @ butlast sub) @ (last sub # post) = c # cs"
        using p(1) Cons.prems(2) by simp
      ultimately show False
        using False by simp
    qed
    then have "\<not> sublist sub ((c # pre) @ butlast sub)"
      using p(2) by (simp add: sublist_Cons_right)
    moreover have "c # cs = (c # pre) @ sub @ post"
      using p(1) by simp
    ultimately show ?thesis
      by blast
  qed
qed

lemma py_find_absent: "\<not> sublist sub s \<Longrightarrow> py_find s sub = - 1"
  using find_at_None [of sub s] by (simp add: py_find_def)

text \<open>A code point that starts right after \<open>pre\<close> starts at the index \<open>len(pre)\<close>.\<close>

lemma char_offset_py_len:
  "rest = [] \<or> \<not> is_continuation (hd rest) \<Longrightarrow>
   char_offset (py_len pre) (pre @ rest) = length pre"
proof (induction pre)
  case Nil
  then show ?case by (cases rest) (simp_all add: py_len_def)
next
  case (Cons c pre)
  then show ?case by (simp add: py_len_def)
qed







subsection \<open>Reading and writing in text mode\<close>



lemma write_text_append: "write_text ls (a @ b) = write_text ls a @ write_text ls b"
  by (simp add: write_text_def)

subsection \<open>get_responses leaves the domain and rules documents alone\<close>



lemma same_documents_refl [simp]: "same_documents st st"
  by (simp add: same_documents_def)











subsection \<open>Document Merger\<close>





text \<open>
  On the corpus document the splice at index \<open>-1\<close> drops the last character of the
  text.
\<close>

lemma merge_nlu_without_anchor:
  "\<not> sublist ''nlu:\<newline>'' nlu_data \<Longrightarrow>
   merge_nlu nlu_data new_nlu_data = py_slice_to nlu_data (- 1) @ new_nlu_data"
  by (simp add: merge_nlu_def py_find_absent)

lemma merge_nlu_without_anchor_example:
  "nlu_yml (generate_nlu ''en'' [] bare_state) = Some (''# corpus notes'' @ ''nlu:\<newline>'') \<and>
   merge_nlu (''caf'' @ [CHR 0xC3, CHR 0xA9]) ''nlu:\<newline>'' = ''caf'' @ ''nlu:\<newline>''"
  by code_simp







subsection \<open>Name Resolver\<close>

lemma max_by_len_mem: "max_by_len best xs \<in> set (best # xs)"
  by (induction xs arbitrary: best) auto

lemma max_by_len_grows: "length best \<le> length (max_by_len best xs)"
proof (induction xs arbitrary: best)
  case Nil
  then show ?case by simp
next
  case (Cons x xs)
  show ?case
    using Cons.IH [of x] Cons.IH [of best] by (simp split: if_splits)
qed

lemma max_by_len_longest: "h \<in> set xs \<Longrightarrow> length h \<le> length (max_by_len best xs)"
proof (induction xs arbitrary: best)
  case Nil
  then show ?case by simp
next
  case (Cons x xs)
  show ?case
  proof (cases "h = x")
    case True
    then show ?thesis
      using max_by_len_grows [of x xs] max_by_len_grows [of best xs] by simp
  next
    case False
    then show ?thesis
      using Cons.prems Cons.IH by simp
  qed
qed

lemma prefixes_same_length: "prefix a s \<Longrightarrow> prefix b s \<Longrightarrow> length a = length b \<Longrightarrow> a = b"
  by (metis append_eq_append_conv prefix_def)

lemma py_replace1_absent: "\<not> sublist old s \<Longrightarrow> py_replace1 old new s = s"
  using find_at_None [of old s] by (simp add: py_replace1_def)


text \<open>The group chosen by \<open>max(matched_groups, key=len)\<close>.\<close>

lemma add_group_matched:
  assumes g: "g \<in> set il" "prefix g name"
    and longest: "\<forall>h\<in>set il. prefix h name \<longrightarrow> length h \<le> length g"
  shows "add_group_to_intent_name il name = py_replace1 (g @ ''-'') (g @ ''/'') name"
proof -
  have "g \<in> set (matched_groups il name)"
    using g by (simp add: matched_groups_def)
  then obtain g0 gs where m: "matched_groups il name = g0 # gs"
    by (cases "matched_groups il name") auto
  define w where "w = max_by_len g0 gs"
  have w_in: "w \<in> set (matched_groups il name)"
    using max_by_len_mem [of g0 gs] m by (simp add: w_def)
  then have w: "w \<in> set il" "prefix w name"
    by (simp_all add: matched_groups_def)
  have "length g \<le> length w"
    using max_by_len_longest [of g gs g0] max_by_len_grows [of g0 gs]
      \<open>g \<in> set (matched_groups il name)\<close> m
    by (auto simp: w_def)
  moreover have "length w \<le> length g"
    using longest w by blast
  ultimately have "w = g"
    using prefixes_same_length [OF w(2) g(2)] by simp
  then show ?thesis
    using m by (simp add: add_group_to_intent_name_def w_def)
qed

lemma add_group_unmatched:
  assumes "\<forall>g\<in>set il. \<not> prefix g name"
  shows "add_group_to_intent_name il name =
         (if DEFAULT_GROUP \<in> set il then DEFAULT_GROUP @ ''/'' @ name else name)"
proof -
  have "matched_groups il name = []"
    using assms by (simp add: matched_groups_def filter_empty_conv)
  then show ?thesis
    by (simp add: add_group_to_intent_name_def)
qed




lemma find_at_Some: "find_at sub s = Some i \<Longrightarrow> prefix sub (drop i s) \<and> i \<le> length s"
proof (induction s arbitrary: i)
  case Nil
  then show ?case by (simp split: if_splits)
next
  case (Cons c cs)
  show ?case
  proof (cases "prefix sub (c # cs)")
    case True
    then show ?thesis using Cons.prems by simp
  next
    case False
    then obtain j where j: "find_at sub cs = Some j" "i = Suc j"
      using Cons.prems by auto
    then show ?thesis using Cons.IH [of j] by simp
  qed
qed

text \<open>Rewriting \<open>w-\<close> to \<open>w/\<close> leaves a prefix \<open>w\<close> of the identifier in place.\<close>

lemma py_replace1_keeps_prefix:
  assumes "prefix w x"
  shows "prefix w (py_replace1 (w @ ''-'') (w @ ''/'') x)"
proof (cases "find_at (w @ ''-'') x")
  case None
  then show ?thesis using assms by (simp add: py_replace1_def)
next
  case (Some i)
  then have "prefix (w @ ''-'') (drop i x)"
    using find_at_Some by blast
  then obtain rest where d: "drop i x = (w @ ''-'') @ rest"
    by (auto simp: prefix_def)
  have x: "x = (take i x @ w) @ (''-'' @ rest)"
    using d append_take_drop_id [of i x] by simp
  have r: "py_replace1 (w @ ''-'') (w @ ''/'') x = (take i x @ w) @ (''/'' @ drop (i + length (w @ ''-'')) x)"
    using Some by (simp add: py_replace1_def)
  have "prefix w ((take i x @ w) @ (''-'' @ rest))"
    using assms x by simp
  then have "prefix w (take i x @ w)"
    by (rule prefix_append_short) simp
  then show ?thesis
    unfolding r using prefix_prefix by blast
qed

lemma resolved_has_registered_prefix:
  assumes "(\<exists>g\<in>set il. prefix g x) \<or> DEFAULT_GROUP \<in> set il"
  shows "\<exists>g\<in>set il. prefix g (add_group_to_intent_name il x)"
proof (cases "matched_groups il x")
  case Nil
  then have "DEFAULT_GROUP \<in> set il"
    using assms by (auto simp: matched_groups_def filter_empty_conv)
  moreover have "add_group_to_intent_name il x = DEFAULT_GROUP @ (''/'' @ x)"
    using Nil \<open>DEFAULT_GROUP \<in> set il\<close> by (simp add: add_group_to_intent_name_def)
  ultimately show ?thesis
    using prefixI by metis
next
  case (Cons g0 gs)
  define w where "w = max_by_len g0 gs"
  have "w \<in> set (matched_groups il x)"
    using max_by_len_mem [of g0 gs] Cons by (simp add: w_def)
  then have w: "w \<in> set il" "prefix w x"
    by (simp_all add: matched_groups_def)
  have "add_group_to_intent_name il x = py_replace1 (w @ ''-'') (w @ ''/'') x"
    using Cons by (simp add: add_group_to_intent_name_def w_def Let_def)
  then show ?thesis
    using w py_replace1_keeps_prefix [of w x] by auto
qed

lemma longest_registered_prefix:
  fixes y :: string
  assumes "g \<in> set il" "prefix g y"
  shows "\<exists>w\<in>set il. prefix w y \<and> (\<forall>h\<in>set il. prefix h y \<longrightarrow> length h \<le> length w)"
proof -
  have "g \<in> set (matched_groups il y)"
    using assms by (simp add: matched_groups_def)
  then obtain g0 gs where m: "matched_groups il y = g0 # gs"
    by (cases "matched_groups il y") auto
  define w where "w = max_by_len g0 gs"
  have "w \<in> set (matched_groups il y)"
    using max_by_len_mem [of g0 gs] m by (simp add: w_def)
  then have w: "w \<in> set il" "prefix w y"
    by (simp_all add: matched_groups_def)
  have "length h \<le> length w" if "h \<in> set il" "prefix h y" for h
  proof -
    have "h \<in> set (g0 # gs)"
      using that m [symmetric] by (simp add: matched_groups_def)
    then show ?thesis
      using max_by_len_longest [of h gs g0] max_by_len_grows [of g0 gs] by (auto simp: w_def)
  qed
  then show ?thesis
    using w by blast
qed

text \<open>
  C8, as stated, fails. With the one group \<open>a\<close>, the identifier \<open>a/a-a-b\<close> is already
  namespaced (it is what \<open>a-a-a-b\<close> resolves to), the only registered prefix of it is
  the group \<open>a\<close> already applied, and it does not begin with \<open>a-\<close>; resolving it once
  gives \<open>a/a/a-b\<close> and twice gives \<open>a/a/a/b\<close>.
\<close>

theorem resolver_idempotent_counterexample:
  "add_group_to_intent_name [''a''] ''a-a-a-b'' = ''a/a-a-b'' \<and>
   matched_groups [''a''] ''a/a-a-b'' = [''a''] \<and>
   \<not> prefix ''a-'' ''a/a-a-b'' \<and>
   add_group_to_intent_name [''a''] ''a/a-a-b'' = ''a/a/a-b'' \<and>
   add_group_to_intent_name [''a''] (add_group_to_intent_name [''a''] ''a/a-a-b'') = ''a/a/a/b'' \<and>
   add_group_to_intent_name [''a''] (add_group_to_intent_name [''a''] ''a/a-a-b'')
     \<noteq> add_group_to_intent_name [''a''] ''a/a-a-b''"
  by code_simp

text \<open>
  C8, amended. Let \<open>y\<close> be a resolved identifier. If every longest registered prefix
  \<open>g\<close> of \<open>y\<close> no longer occurs in \<open>y\<close> in the form \<open>g-\<close>, then resolving \<open>y\<close> returns
  \<open>y\<close>: resolving twice yields the same string as resolving once.
\<close>

theorem resolver_idempotent_when_settled:
  assumes "\<forall>g\<in>set il. prefix g (add_group_to_intent_name il x) \<and>
             (\<forall>h\<in>set il. prefix h (add_group_to_intent_name il x) \<longrightarrow> length h \<le> length g)
             \<longrightarrow> \<not> sublist (g @ ''-'') (add_group_to_intent_name il x)"
  shows "add_group_to_intent_name il (add_group_to_intent_name il x) = add_group_to_intent_name il x"
proof -
  define y where "y = add_group_to_intent_name il x"
  show ?thesis
  proof (cases "\<exists>g\<in>set il. prefix g y")
    case True
    then obtain w where w: "w \<in> set il" "prefix w y"
        "\<forall>h\<in>set il. prefix h y \<longrightarrow> length h \<le> length w"
      using longest_registered_prefix [of _ il y] by blast
    then have "\<not> sublist (w @ ''-'') y"
      using assms by (simp add: y_def)
    then show ?thesis
      using add_group_matched [OF w] py_replace1_absent by (simp add: y_def)
  next
    case False
    then have "\<not> ((\<exists>g\<in>set il. prefix g x) \<or> DEFAULT_GROUP \<in> set il)"
      using resolved_has_registered_prefix [of il x] by (auto simp: y_def)
    then show ?thesis
      using add_group_unmatched [of il y] False by (simp add: y_def)
  qed
qed

theorem resolver_idempotent_when_settled_witness:
  "add_group_to_intent_name [''greet''] (add_group_to_intent_name [''greet''] ''greet-hello'')
     = add_group_to_intent_name [''greet''] ''greet-hello'' \<and>
   add_group_to_intent_name [''greet''] ''greet-hello'' = ''greet/hello''"
proof -
  have y: "add_group_to_intent_name [''greet''] ''greet-hello'' = ''greet/hello''"
    by code_simp
  have "\<not> sublist (''greet'' @ ''-'') ''greet/hello''"
    by code_simp
  then have h: "\<forall>g\<in>set [''greet'']. prefix g (add_group_to_intent_name [''greet''] ''greet-hello'') \<and>
             (\<forall>h\<in>set [''greet'']. prefix h (add_group_to_intent_name [''greet''] ''greet-hello'')
                \<longrightarrow> length h \<le> length g)
             \<longrightarrow> \<not> sublist (g @ ''-'') (add_group_to_intent_name [''greet''] ''greet-hello'')"
    unfolding y by simp
  show ?thesis
    using resolver_idempotent_when_settled [OF h] y by simp
qed

subsection \<open>Grouping Analyzer\<close>

lemma map_of_bump:
  "map_of (bump p pc) = (map_of pc)(p \<mapsto> count_of pc p + 1)"
  by (induction pc) (auto simp: count_of_def fun_eq_iff)

lemma keys_bump: "fst ` set (bump p pc) = insert p (fst ` set pc)"
  by (induction p pc rule: bump.induct) (auto simp: image_iff)

lemma distinct_bump: "distinct (map fst pc) \<Longrightarrow> distinct (map fst (bump p pc))"
proof (induction pc)
  case Nil
  then show ?case by simp
next
  case (Cons a pc)
  obtain q c where a: "a = (q, c)" by (cases a)
  show ?case
    using Cons keys_bump [of p pc] a by auto
qed

lemma count_of_bump: "count_of (bump p pc) q = count_of pc q + (if q = p then 1 else 0)"
  by (simp add: count_of_def map_of_bump)

text \<open>The prefixes the loop counts, in the order of the file names.\<close>

lemma tally_Cons:
  "tally (f # fs) p =
     (if is_usersays f \<and> has_prefix f \<and> prefix_of f = p then 1 else 0) + tally fs p"
  by (simp add: tally_def training_files_def)

lemma count_prefixes_result:
  assumes "count_prefixes fs (pc, n) = (pc', n')" "distinct (map fst pc)"
  shows "distinct (map fst pc') \<and>
         fst ` set pc' = fst ` set pc \<union> set (map prefix_of (filter has_prefix (training_files fs))) \<and>
         (\<forall>p. count_of pc' p = count_of pc p + tally fs p) \<and>
         n' = n + length (filter (\<lambda>f. \<not> has_prefix f) (training_files fs))"
  using assms
proof (induction fs arbitrary: pc n)
  case Nil
  then show ?case by (simp add: training_files_def tally_def)
next
  case (Cons f fs)
  show ?case
  proof (cases "is_usersays f")
    case False
    then have "count_prefixes fs (pc, n) = (pc', n')"
      using Cons.prems(1) by simp
    from Cons.IH [OF this Cons.prems(2)] show ?thesis
      using False by (simp add: training_files_def tally_Cons)
  next
    case True
    show ?thesis
    proof (cases "has_prefix f")
      case True
      have "count_prefixes fs (bump (prefix_of f) pc, n) = (pc', n')"
        using Cons.prems(1) \<open>is_usersays f\<close> True by simp
      from Cons.IH [OF this distinct_bump [OF Cons.prems(2)]] show ?thesis
        using \<open>is_usersays f\<close> True keys_bump [of "prefix_of f" pc]
        by (auto simp: training_files_def tally_Cons count_of_bump)
    next
      case False
      have "count_prefixes fs (pc, n + 1) = (pc', n')"
        using Cons.prems(1) \<open>is_usersays f\<close> False by simp
      from Cons.IH [OF this Cons.prems(2)] show ?thesis
        using \<open>is_usersays f\<close> False by (simp add: training_files_def tally_Cons)
    qed
  qed
qed

lemma length_filter_count_list:
  "length (filter (\<lambda>f. has_prefix f \<and> prefix_of f = p) names)
     = count_list (map prefix_of (filter has_prefix names)) p"
  by (induction names) auto

lemma tally_count_list:
  "tally fs p = count_list (map prefix_of (filter has_prefix (training_files fs))) p"
  by (simp add: tally_def length_filter_count_list)

text \<open>The elements that occur once in a list form a duplicate-free sublist.\<close>

lemma distinct_filter_count_below_two: "distinct (filter (\<lambda>p. count_list D p < 2) D)"
proof -
  have "count (mset (filter (\<lambda>p. count_list D p < 2) D)) a
          = (if a \<in> set (filter (\<lambda>p. count_list D p < 2) D) then 1 else 0)" for a
  proof (cases "a \<in> set D")
    case False
    then show ?thesis by (simp add: count_mset)
  next
    case True
    then have "0 < count_list D a"
      using count_list_0_iff [of D a] by simp
    then show ?thesis
      using True by (auto simp: count_mset)
  qed
  then show ?thesis
    using distinct_count_atmost_1 by blast
qed

lemma length_filter_split:
  "length (filter (\<lambda>x. A x \<or> B x) xs)
     = length (filter A xs) + length (filter (\<lambda>x. \<not> A x \<and> B x) xs)"
  by (induction xs) auto

lemma length_filter_map_prefix_of:
  "length (filter (\<lambda>f. has_prefix f \<and> Q (prefix_of f)) names)
     = length (filter Q (map prefix_of (filter has_prefix names)))"
  by (induction names) auto

lemma ungrouped_count_split:
  "ungrouped_count fs
     = length (filter (\<lambda>f. \<not> has_prefix f) (training_files fs))
       + card {p \<in> set (map prefix_of (filter has_prefix (training_files fs))). tally fs p < 2}"
proof -
  define D where "D = map prefix_of (filter has_prefix (training_files fs))"
  have t: "tally fs p = count_list D p" for p
    by (simp add: tally_count_list D_def)
  have "length (filter (\<lambda>f. \<not> \<not> has_prefix f \<and> tally fs (prefix_of f) < 2) (training_files fs))
          = length (filter (\<lambda>p. tally fs p < 2) D)"
    using length_filter_map_prefix_of [of "\<lambda>p. tally fs p < 2" "training_files fs"]
    by (simp add: D_def)
  also have "\<dots> = length (filter (\<lambda>p. count_list D p < 2) D)"
    by (simp add: t)
  also have "\<dots> = card (set (filter (\<lambda>p. count_list D p < 2) D))"
    using distinct_card [OF distinct_filter_count_below_two [of D]] by simp
  also have "set (filter (\<lambda>p. count_list D p < 2) D) = {p \<in> set D. tally fs p < 2}"
    by (auto simp: t)
  finally have "length (filter (\<lambda>f. \<not> \<not> has_prefix f \<and> tally fs (prefix_of f) < 2) (training_files fs))
      = card {p \<in> set D. tally fs p < 2}" .
  then show ?thesis
    unfolding ungrouped_count_def D_def
    using length_filter_split
      [of "\<lambda>f. \<not> has_prefix f" "\<lambda>f. tally fs (prefix_of f) < 2" "training_files fs"]
    by simp
qed

lemma recognized_prefixes_set: "set (recognized_prefixes fs) = {p. 2 \<le> tally fs p}"
proof -
  have "p \<in> set (map prefix_of (filter has_prefix (training_files fs)))" if "2 \<le> tally fs p" for p
    using that count_list_0_iff [of "map prefix_of (filter has_prefix (training_files fs))" p]
    by (simp add: tally_count_list)
  then show ?thesis
    by (auto simp: recognized_prefixes_def)
qed

lemma recognized_prefixes_distinct: "distinct (recognized_prefixes fs)"
  by (simp add: recognized_prefixes_def)

text \<open>What the dictionary holds after the loop, started empty.\<close>

lemma extract_groups_counts:
  assumes "count_prefixes fs ([], 0) = (pc, n)"
  shows "distinct (map fst (filter (\<lambda>(p, c). 2 \<le> c) pc))"
    and "set (map fst (filter (\<lambda>(p, c). 2 \<le> c) pc)) = {p. 2 \<le> tally fs p}"
    and "n + length (filter (\<lambda>(p, c). c < 2) pc) = ungrouped_count fs"
proof -
  define D where "D = map prefix_of (filter has_prefix (training_files fs))"
  have r: "distinct (map fst pc)" "fst ` set pc = set D"
      "\<And>p. count_of pc p = tally fs p"
      "n = length (filter (\<lambda>f. \<not> has_prefix f) (training_files fs))"
    using count_prefixes_result [OF assms] by (simp_all add: D_def count_of_def)
  have val: "c = tally fs p" if "(p, c) \<in> set pc" for p c
    using that r(1) r(3) [of p] by (simp add: count_of_def)
  have mem: "(p, tally fs p) \<in> set pc" if "p \<in> set D" for p
  proof -
    have "p \<in> fst ` set pc"
      using that r(2) by simp
    then obtain x where "x \<in> set pc" "p = fst x"
      by (rule imageE)
    then have "(p, snd x) \<in> set pc"
      by simp
    then show ?thesis using val [of p "snd x"] by simp
  qed
  show "distinct (map fst (filter (\<lambda>(p, c). 2 \<le> c) pc))"
    using r(1) by (simp add: distinct_map_filter)
  have in_D: "p \<in> set D" if "0 < tally fs p" for p
    using that count_list_0_iff [of D p] by (simp add: tally_count_list D_def)
  show "set (map fst (filter (\<lambda>(p, c). 2 \<le> c) pc)) = {p. 2 \<le> tally fs p}"
  proof (intro set_eqI iffI)
    fix p assume "p \<in> set (map fst (filter (\<lambda>(p, c). 2 \<le> c) pc))"
    then obtain x where "x \<in> set pc" "case x of (p, c) \<Rightarrow> 2 \<le> c" "p = fst x"
      by auto
    then have "(p, snd x) \<in> set pc" "2 \<le> snd x"
      by (simp_all add: case_prod_beta)
    then show "p \<in> {p. 2 \<le> tally fs p}" using val [of p "snd x"] by simp
  next
    fix p assume "p \<in> {p. 2 \<le> tally fs p}"
    then have "2 \<le> tally fs p" by simp
    then have "(p, tally fs p) \<in> set pc" using mem in_D by simp
    then have "(p, tally fs p) \<in> set (filter (\<lambda>(p, c). 2 \<le> c) pc)"
      using \<open>2 \<le> tally fs p\<close> by simp
    then have "fst (p, tally fs p) \<in> fst ` set (filter (\<lambda>(p, c). 2 \<le> c) pc)"
      by (rule imageI)
    then show "p \<in> set (map fst (filter (\<lambda>(p, c). 2 \<le> c) pc))"
      by simp
  qed
  have "distinct (map fst (filter (\<lambda>(p, c). c < 2) pc))"
    using r(1) by (simp add: distinct_map_filter)
  then have "length (filter (\<lambda>(p, c). c < 2) pc) = card (set (map fst (filter (\<lambda>(p, c). c < 2) pc)))"
    using distinct_card [of "map fst (filter (\<lambda>(p, c). c < 2) pc)"] by simp
  also have "set (map fst (filter (\<lambda>(p, c). c < 2) pc)) = {p \<in> set D. tally fs p < 2}"
  proof (intro set_eqI iffI)
    fix p assume "p \<in> set (map fst (filter (\<lambda>(p, c). c < 2) pc))"
    then obtain x where "x \<in> set pc" "case x of (p, c) \<Rightarrow> c < 2" "p = fst x"
      by auto
    then have c: "(p, snd x) \<in> set pc" "snd x < 2"
      by (simp_all add: case_prod_beta)
    then have "fst (p, snd x) \<in> fst ` set pc"
      by (intro imageI)
    then have "p \<in> set D" using r(2) by simp
    then show "p \<in> {p \<in> set D. tally fs p < 2}" using c val [of p "snd x"] by simp
  next
    fix p assume "p \<in> {p \<in> set D. tally fs p < 2}"
    then have "(p, tally fs p) \<in> set pc" "tally fs p < 2" using mem by auto
    then have "(p, tally fs p) \<in> set (filter (\<lambda>(p, c). c < 2) pc)"
      by simp
    then have "fst (p, tally fs p) \<in> fst ` set (filter (\<lambda>(p, c). c < 2) pc)"
      by (rule imageI)
    then show "p \<in> set (map fst (filter (\<lambda>(p, c). c < 2) pc))"
      by simp
  qed
  finally show "n + length (filter (\<lambda>(p, c). c < 2) pc) = ungrouped_count fs"
    using r(4) ungrouped_count_split [of fs] by (simp add: D_def)
qed

lemma extract_groups_set:
  "set (extract_groups fs) =
     (if length (recognized_prefixes fs) = 1 \<and> ungrouped_count fs = 0 then {}
      else set (recognized_prefixes fs) \<union> (if 2 \<le> ungrouped_count fs then {DEFAULT_GROUP} else {}))"
proof -
  obtain pc n where l: "count_prefixes fs ([], 0) = (pc, n)"
    by (cases "count_prefixes fs ([], 0)")
  define groups0 where "groups0 = map fst (filter (\<lambda>(p, c). 2 \<le> c) pc)"
  have s: "set groups0 = set (recognized_prefixes fs)"
    using extract_groups_counts(2) [OF l] by (simp add: groups0_def recognized_prefixes_set)
  have "distinct groups0"
    using extract_groups_counts(1) [OF l] by (simp add: groups0_def)
  then have len: "length groups0 = length (recognized_prefixes fs)"
    using s recognized_prefixes_distinct [of fs] distinct_card by metis
  have u: "n + length (filter (\<lambda>(p, c). c < 2) pc) = ungrouped_count fs"
    using extract_groups_counts(3) [OF l] .
  have e: "extract_groups fs =
      (if length (if 2 \<le> n + length (filter (\<lambda>(p, c). c < 2) pc)
                  then groups0 @ [DEFAULT_GROUP] else groups0) = 1
          \<and> n + length (filter (\<lambda>(p, c). c < 2) pc) = 0
       then []
       else (if 2 \<le> n + length (filter (\<lambda>(p, c). c < 2) pc)
             then groups0 @ [DEFAULT_GROUP] else groups0))"
    unfolding extract_groups_def l Let_def prod.case groups0_def by (rule refl)
  show ?thesis
  proof (cases "2 \<le> ungrouped_count fs")
    case True
    then show ?thesis
      unfolding e u using s by simp
  next
    case False
    then show ?thesis
      unfolding e u using s len by simp
  qed
qed

text \<open>
  C5, as stated, fails on a list of file names that are not training-phrase names:
  the prefixes \<open>a\<close> and \<open>b\<close> each occur twice among the prefixed names, and no group
  is recognized.
\<close>

theorem grouping_counts_every_name_counterexample:
  "tally_of_all_names [''a-x.json'', ''a-y.json'', ''b-x.json'', ''b-y.json''] ''a'' = 2 \<and>
   tally_of_all_names [''a-x.json'', ''a-y.json'', ''b-x.json'', ''b-y.json''] ''b'' = 2 \<and>
   extract_groups [''a-x.json'', ''a-y.json'', ''b-x.json'', ''b-y.json''] = []"
  by code_simp

text \<open>
  C5, amended. Only the names \<open>is_usersays\<close> accepts are counted; every other name is
  skipped. Over those, a prefix (the part before the first \<open>-\<close>) is recognized iff its
  tally is at least two; the names without a separator and the names whose prefix has a
  tally below two make the ungrouped count; the group set returned holds the recognized
  prefixes, and the default-group marker iff the ungrouped count is at least two; but
  when exactly one prefix is recognized and the ungrouped count is zero, the group set
  returned is empty.
\<close>

theorem grouping_analyzer_groups:
  "set (extract_groups filenames) =
     (if length (recognized_prefixes filenames) = 1 \<and> ungrouped_count filenames = 0 then {}
      else set (recognized_prefixes filenames)
           \<union> (if 2 \<le> ungrouped_count filenames then {DEFAULT_GROUP} else {})) \<and>
   (p \<in> set (recognized_prefixes filenames) \<longleftrightarrow> 2 \<le> tally filenames p)"
  using extract_groups_set [of filenames] recognized_prefixes_set [of filenames]
  by simp

theorem grouping_analyzer_groups_witness:
  "set (extract_groups scenario_training_names) = {''greet''} \<and>
   2 \<le> tally scenario_training_names ''greet''"
proof -
  have r: "recognized_prefixes scenario_training_names = [''greet'']"
    by code_simp
  have u: "ungrouped_count scenario_training_names = 1"
    by code_simp
  show ?thesis
    using grouping_analyzer_groups [of scenario_training_names "''greet''"]
    unfolding r u by simp
qed

text \<open>
  C6, as stated, fails: the names written in the scenario are not training-phrase names,
  every one of them is skipped and no group is recognized.
\<close>

theorem scenario_as_written_counterexample:
  "extract_groups scenario_names_as_written = [] \<and>
   add_group_to_intent_name (extract_groups scenario_names_as_written) ''greet-hello'' = ''greet-hello''"
  by code_simp

text \<open>
  C6, amended. On the training-phrase file names \<open>greet-hello_usersays_en.json\<close> three
  times, \<open>greet-bye_usersays_en.json\<close> twice and \<open>faq_usersays_en.json\<close> once, the groups
  are exactly \<open>greet\<close>, without the default group, the ungrouped count being one; with
  these groups \<open>greet-hello\<close> resolves to \<open>greet/hello\<close> and \<open>faq\<close> to \<open>faq\<close>.
\<close>

theorem scenario_training_names_groups:
  "extract_groups scenario_training_names = [''greet''] \<and>
   DEFAULT_GROUP \<notin> set (extract_groups scenario_training_names) \<and>
   ungrouped_count scenario_training_names = 1 \<and>
   remove_substring ''greet-hello_usersays_en.json'' (usersays_suffix ''en'') = ''greet-hello'' \<and>
   remove_substring ''faq_usersays_en.json'' (usersays_suffix ''en'') = ''faq'' \<and>
   add_group_to_intent_name (extract_groups scenario_training_names) ''greet-hello'' = ''greet/hello'' \<and>
   add_group_to_intent_name (extract_groups scenario_training_names) ''faq'' = ''faq''"
  by code_simp

theorem scenario_training_names_groups_witness:
  "add_group_to_intent_name [''greet''] ''greet-hello'' = ''greet/hello'' \<and>
   add_group_to_intent_name [''greet''] ''faq'' = ''faq''"
proof -
  have g: "extract_groups scenario_training_names = [''greet'']"
    using scenario_training_names_groups by (rule conjunct1)
  show ?thesis
    using scenario_training_names_groups unfolding g by blast
qed

subsection \<open>Response Normalizer\<close>

lemma message_step_other_language:
  "m_lang m \<noteq> language \<Longrightarrow> message_step language m sv = sv"
  by (cases sv) (simp add: message_step_def)

lemma process_messages_matched_language:
  "process_messages language response sv
     = process_messages language (matched_language language response) sv"
  by (induction response arbitrary: sv)
     (simp_all add: matched_language_def message_step_other_language)

lemma message_step_text:
  "text_payload language t ss \<Longrightarrow> ss \<noteq> [] \<Longrightarrow>
   message_step language t (st, v)
     = (st, v\<lparr>responses_content := responses_content v @ text_steps ss, after_text := True\<rparr>)"
  by (simp add: message_step_def text_payload_def)

lemma message_step_empty_text:
  "text_payload language t [] \<Longrightarrow> message_step language t (st, v) = (st, v)"
  by (simp add: message_step_def text_payload_def)

lemma message_step_buttons:
  "buttons_payload language b bs \<Longrightarrow>
   message_step language b (st, v) = process_buttons bs (st, v)"
  by (simp add: message_step_def buttons_payload_def Let_def split: prod.splits)

lemma text_steps_snoc:
  "text_steps (xs @ [x])
     = text_steps xs @ ''  - text: '' @ [CHR 0x27] @ format_text x @ [CHR 0x27, CHR 0x0A]"
  by (simp add: text_steps_def)

lemma text_steps_last:
  "ss \<noteq> [] \<Longrightarrow>
   text_steps ss
     = (text_steps (butlast ss) @ ''  - text: '' @ [CHR 0x27] @ format_text (last ss)) @ [CHR 0x27, CHR 0x0A]"
  using text_steps_snoc [of "butlast ss" "last ss"] by simp

lemma py_len_append: "py_len (xs @ ys) = py_len xs + py_len ys"
  by (simp add: py_len_def)

lemma py_slice_to_drop_two: "py_slice_to (xs @ [CHR 0x27, CHR 0x0A]) (- 2) = xs"
proof -
  have l: "py_len (xs @ [CHR 0x27, CHR 0x0A]) = py_len xs + 2"
    by (simp add: py_len_append) (simp add: py_len_def is_continuation_def)
  have "char_offset (py_len xs) (xs @ [CHR 0x27, CHR 0x0A]) = length xs"
    by (rule char_offset_py_len) (simp add: is_continuation_def)
  then show ?thesis
    by (simp add: py_slice_to_def l)
qed

lemma process_buttons_after_text:
  "after_text v \<Longrightarrow>
   process_buttons bs (st, v)
     = (st, v\<lparr>responses_content :=
                 py_slice_to (responses_content v) (- 2) @ button_markup bs @ [CHR 0x27, CHR 0x0A],
               after_text := True\<rparr>)"
  by (simp add: process_buttons_def)

lemma str_nat_1: "str_nat (Suc 0) = ''1''"
  by (simp add: str_nat.simps [of "Suc 0"])

lemma process_buttons_first_turn:
  assumes "\<not> after_text v" "steps_iter v = 0"
  shows "process_buttons bs (st, v) =
     (let short = after_slash (intent_name v); rid = ''utter_'' @ short
      in (st\<lparr>INTENT_LIST := register_intent short (INTENT_LIST st),
              nlu_yml :=
                         map_option (\<lambda>filedata. write_text (os_linesep st)
                                       (py_replace (intent_name v) short (read_text filedata)))
                           (nlu_yml st),
              RULES_CONTENT := create_new_rule (RULES_CONTENT st) rid short
                                 @ ''  - action: '' @ rid @ ''_1\<newline>''\<rparr>,
          \<lparr>responses_content = py_replace (response_name v) rid (responses_content v)
                                 @ ''  '' @ rid @ ''_1:\<newline>  - text: '' @ [CHR 0x27]
                                 @ button_markup bs @ [CHR 0x27, CHR 0x0A],
           after_text = True, steps_iter = 1, intent_name = short, response_name = rid\<rparr>))"
  using assms
  by (simp add: process_buttons_def rename_intent_def rename_response_def replace_in_file_def
        Let_def str_nat_1)

text \<open>
  C4, as stated, fails in two ways. A text payload that carries no string emits no
  text step, so the buttons that follow it open a sub-block and a rule. And a payload
  sequence that begins with buttons can open more than one sub-block: buttons, images,
  buttons gives the sub-blocks \<open>_1\<close> and \<open>_2\<close> and a rule with three actions.
\<close>

theorem normalizer_text_buttons_counterexample:
  "steps_iter (snd (process_messages ''en'' [text_message [], buttons_message [visit_button]]
      (empty_state, info_vars))) = 1 \<and>
   RULES_CONTENT (fst (process_messages ''en'' [text_message [], buttons_message [visit_button]]
      (empty_state, info_vars)))
     = ''\<newline>- rule: Respond to info\<newline>  steps:\<newline>  - intent: info\<newline>  - action: utter_info\<newline>  - action: utter_info_1\<newline>'' \<and>
   steps_iter (snd (process_messages ''en''
      [buttons_message [visit_button], images_message [''http://i''], buttons_message [visit_button]]
      (empty_state, info_vars))) = 2 \<and>
   RULES_CONTENT (fst (process_messages ''en''
      [buttons_message [visit_button], images_message [''http://i''], buttons_message [visit_button]]
      (empty_state, info_vars)))
     = ''\<newline>- rule: Respond to info\<newline>  steps:\<newline>  - intent: info\<newline>  - action: utter_info\<newline>  - action: utter_info_1\<newline>  - action: utter_info_2\<newline>''"
  by code_simp

text \<open>
  C4, amended. Let a response carry, in the configured language, the payload sequence
  text, buttons, the text payload holding at least one string. Then the globals are
  unchanged (no rule is opened, no intent renamed), the step counter is unchanged (no
  sub-block is created), and the button markup, one \<open><br><a href="URL">LABEL</a>\<close>
  per button, is written into the last text step emitted. Let the sequence be buttons
  alone, or buttons then text, at the start of an intent (no preceding text, step counter
  zero). Then the intent is renamed to its short form (what follows the first \<open>/\<close>) and
  the response to \<open>utter_\<close> and the short form; exactly one sub-block is created, named
  by the renamed response identifier and \<open>_1\<close>, holding the button markup (and then the
  text steps, if any); and \<open>RULES_CONTENT\<close> grows by exactly one rule for the intent
  whose two actions are the renamed response identifier and the sub-block.
\<close>

theorem normalizer_text_buttons:
  "(matched_language language response = [t, b] \<and> text_payload language t ss \<and> ss \<noteq> [] \<and>
      buttons_payload language b bs
      \<longrightarrow> process_messages language response (st, v)
            = (st, v\<lparr>responses_content :=
                        responses_content v @ text_steps (butlast ss)
                        @ ''  - text: '' @ [CHR 0x27] @ format_text (last ss)
                        @ button_markup bs @ [CHR 0x27, CHR 0x0A],
                      after_text := True\<rparr>)) \<and>
   ((matched_language language response = [b] \<and> ss = [] \<or>
     matched_language language response = [b, t] \<and> text_payload language t ss) \<and>
      buttons_payload language b bs \<and> \<not> after_text v \<and> steps_iter v = 0
      \<longrightarrow> process_messages language response (st, v)
            = (let short = after_slash (intent_name v); rid = ''utter_'' @ short
               in (st\<lparr>INTENT_LIST := register_intent short (INTENT_LIST st),
                       nlu_yml :=
                         map_option (\<lambda>filedata. write_text (os_linesep st)
                                       (py_replace (intent_name v) short (read_text filedata)))
                           (nlu_yml st),
                       RULES_CONTENT := create_new_rule (RULES_CONTENT st) rid short
                                          @ ''  - action: '' @ rid @ ''_1\<newline>''\<rparr>,
                   \<lparr>responses_content = py_replace (response_name v) rid (responses_content v)
                                          @ ''  '' @ rid @ ''_1:\<newline>  - text: '' @ [CHR 0x27]
                                          @ button_markup bs @ [CHR 0x27, CHR 0x0A]
                                          @ text_steps ss,
                    after_text = True, steps_iter = 1, intent_name = short, response_name = rid\<rparr>)))"
proof (intro conjI impI)
  assume a: "matched_language language response = [t, b] \<and> text_payload language t ss \<and> ss \<noteq> [] \<and>
      buttons_payload language b bs"
  then have ml: "matched_language language response = [t, b]"
    and tp: "text_payload language t ss" and ne: "ss \<noteq> []"
    and bp: "buttons_payload language b bs"
    by simp_all
  have "process_messages language response (st, v)
          = process_buttons bs (st, v\<lparr>responses_content := responses_content v @ text_steps ss,
                                      after_text := True\<rparr>)"
    using ml process_messages_matched_language [of language response "(st, v)"]
    by (simp add: message_step_text [OF tp ne] message_step_buttons [OF bp])
  also have "\<dots> = (st, v\<lparr>responses_content :=
                        py_slice_to (responses_content v @ text_steps ss) (- 2)
                        @ button_markup bs @ [CHR 0x27, CHR 0x0A],
                      after_text := True\<rparr>)"
    by (simp add: process_buttons_after_text)
  also have "py_slice_to (responses_content v @ text_steps ss) (- 2)
               = responses_content v @ text_steps (butlast ss)
                 @ ''  - text: '' @ [CHR 0x27] @ format_text (last ss)"
  proof -
    have "responses_content v @ text_steps ss
            = (responses_content v @ text_steps (butlast ss)
               @ ''  - text: '' @ [CHR 0x27] @ format_text (last ss)) @ [CHR 0x27, CHR 0x0A]"
      using a text_steps_last [of ss] by simp
    then show ?thesis
      using py_slice_to_drop_two by metis
  qed
  finally show "process_messages language response (st, v)
            = (st, v\<lparr>responses_content :=
                        responses_content v @ text_steps (butlast ss)
                        @ ''  - text: '' @ [CHR 0x27] @ format_text (last ss)
                        @ button_markup bs @ [CHR 0x27, CHR 0x0A],
                      after_text := True\<rparr>)"
    by simp
next
  assume a: "(matched_language language response = [b] \<and> ss = [] \<or>
     matched_language language response = [b, t] \<and> text_payload language t ss) \<and>
      buttons_payload language b bs \<and> \<not> after_text v \<and> steps_iter v = 0"
  define short where "short = after_slash (intent_name v)"
  define rid where "rid = ''utter_'' @ short"
  define st' where "st' = st\<lparr>INTENT_LIST := register_intent short (INTENT_LIST st),
                       nlu_yml :=
                         map_option (\<lambda>filedata. write_text (os_linesep st)
                                       (py_replace (intent_name v) short (read_text filedata)))
                           (nlu_yml st),
                       RULES_CONTENT := create_new_rule (RULES_CONTENT st) rid short
                                          @ ''  - action: '' @ rid @ ''_1\<newline>''\<rparr>"
  define v' where "v' = \<lparr>responses_content = py_replace (response_name v) rid (responses_content v)
                                          @ ''  '' @ rid @ ''_1:\<newline>  - text: '' @ [CHR 0x27]
                                          @ button_markup bs @ [CHR 0x27, CHR 0x0A],
                    after_text = True, steps_iter = 1, intent_name = short, response_name = rid\<rparr>"
  from a have bp: "buttons_payload language b bs" and fresh: "\<not> after_text v" "steps_iter v = 0"
    by simp_all
  have first: "process_buttons bs (st, v) = (st', v')"
    using process_buttons_first_turn [OF fresh, of bs st]
    by (simp add: Let_def short_def rid_def st'_def v'_def)
  have "process_messages language response (st, v)
          = (st', v'\<lparr>responses_content := responses_content v' @ text_steps ss\<rparr>)"
  proof (cases "matched_language language response = [b] \<and> ss = []")
    case True
    then show ?thesis
      using first process_messages_matched_language [of language response "(st, v)"]
      by (simp add: message_step_buttons [OF bp] text_steps_def)
  next
    case False
    then have s: "matched_language language response = [b, t]" "text_payload language t ss"
      using a by auto
    have "process_messages language response (st, v) = message_step language t (st', v')"
      using s(1) first process_messages_matched_language [of language response "(st, v)"]
      by (simp add: message_step_buttons [OF bp])
    also have "\<dots> = (st', v'\<lparr>responses_content := responses_content v' @ text_steps ss\<rparr>)"
    proof (cases "ss = []")
      case True
      then show ?thesis
        using s(2) message_step_empty_text [of language t st' v']
        by (simp add: text_steps_def)
    next
      case False
      then show ?thesis
        using s(2) message_step_text [of language t ss st' v'] by (simp add: v'_def)
    qed
    finally show ?thesis .
  qed
  then show "process_messages language response (st, v)
            = (let short = after_slash (intent_name v); rid = ''utter_'' @ short
               in (st\<lparr>INTENT_LIST := register_intent short (INTENT_LIST st),
                       nlu_yml :=
                         map_option (\<lambda>filedata. write_text (os_linesep st)
                                       (py_replace (intent_name v) short (read_text filedata)))
                           (nlu_yml st),
                       RULES_CONTENT := create_new_rule (RULES_CONTENT st) rid short
                                          @ ''  - action: '' @ rid @ ''_1\<newline>''\<rparr>,
                   \<lparr>responses_content = py_replace (response_name v) rid (responses_content v)
                                          @ ''  '' @ rid @ ''_1:\<newline>  - text: '' @ [CHR 0x27]
                                          @ button_markup bs @ [CHR 0x27, CHR 0x0A]
                                          @ text_steps ss,
                    after_text = True, steps_iter = 1, intent_name = short, response_name = rid\<rparr>))"
    by (simp add: Let_def short_def rid_def st'_def v'_def)
qed

theorem normalizer_text_buttons_witness:
  \<open>process_messages ''en'' [text_message [''Welcome''], buttons_message [visit_button]]
       (empty_state, info_vars)
     = (empty_state,
        info_vars\<lparr>responses_content :=
                    ''responses:\<newline>  utter_info:\<newline>  - text: '' @ [CHR 0x27]
                    @ ''Welcome<br><a href="http://x">Visit</a>'' @ [CHR 0x27, CHR 0x0A],
                  after_text := True\<rparr>) \<and>
   process_messages ''en'' [buttons_message [visit_button]] (empty_state, info_vars)
     = (empty_state\<lparr>INTENT_LIST := [''info''],
                      RULES_CONTENT := ''\<newline>- rule: Respond to info\<newline>  steps:\<newline>  - intent: info\<newline>  - action: utter_info\<newline>  - action: utter_info_1\<newline>''\<rparr>,
        \<lparr>responses_content =
           ''responses:\<newline>  utter_info:\<newline>  utter_info_1:\<newline>  - text: '' @ [CHR 0x27]
           @ ''<br><a href="http://x">Visit</a>'' @ [CHR 0x27, CHR 0x0A],
         after_text = True, steps_iter = 1, intent_name = ''info'', response_name = ''utter_info''\<rparr>)\<close>
proof -
  have h1: "matched_language ''en'' [text_message [''Welcome''], buttons_message [visit_button]]
        = [text_message [''Welcome''], buttons_message [visit_button]] \<and>
      text_payload ''en'' (text_message [''Welcome'']) [''Welcome''] \<and> [''Welcome''] \<noteq> [] \<and>
      buttons_payload ''en'' (buttons_message [visit_button]) [visit_button]"
    by (simp add: matched_language_def text_message_def buttons_message_def text_payload_def
          buttons_payload_def)
  have h2: "(matched_language ''en'' [buttons_message [visit_button]] = [buttons_message [visit_button]] \<and>
        ([] :: string list) = [] \<or>
      matched_language ''en'' [buttons_message [visit_button]]
        = [buttons_message [visit_button], text_message []] \<and>
      text_payload ''en'' (text_message []) []) \<and>
      buttons_payload ''en'' (buttons_message [visit_button]) [visit_button] \<and>
      \<not> after_text info_vars \<and> steps_iter info_vars = 0"
    by (simp add: matched_language_def buttons_message_def buttons_payload_def info_vars_def)
  have e1: "process_messages ''en'' [text_message [''Welcome''], buttons_message [visit_button]]
       (empty_state, info_vars)
     = (empty_state,
        info_vars\<lparr>responses_content :=
                    responses_content info_vars @ text_steps (butlast [''Welcome''])
                    @ ''  - text: '' @ [CHR 0x27] @ format_text (last [''Welcome''])
                    @ button_markup [visit_button] @ [CHR 0x27, CHR 0x0A],
                  after_text := True\<rparr>)"
    using normalizer_text_buttons
      [of "''en''" "[text_message [''Welcome''], buttons_message [visit_button]]"
          "text_message [''Welcome'']" "buttons_message [visit_button]" "[''Welcome'']"
          "[visit_button]" empty_state info_vars] h1
    by blast
  have e2: "process_messages ''en'' [buttons_message [visit_button]] (empty_state, info_vars)
     = (let short = after_slash (intent_name info_vars); rid = ''utter_'' @ short
        in (empty_state\<lparr>INTENT_LIST := register_intent short (INTENT_LIST empty_state),
                nlu_yml :=
                  map_option (\<lambda>filedata. write_text (os_linesep empty_state)
                                (py_replace (intent_name info_vars) short (read_text filedata)))
                    (nlu_yml empty_state),
                RULES_CONTENT := create_new_rule (RULES_CONTENT empty_state) rid short
                                   @ ''  - action: '' @ rid @ ''_1\<newline>''\<rparr>,
            \<lparr>responses_content = py_replace (response_name info_vars) rid (responses_content info_vars)
                                   @ ''  '' @ rid @ ''_1:\<newline>  - text: '' @ [CHR 0x27]
                                   @ button_markup [visit_button] @ [CHR 0x27, CHR 0x0A]
                                   @ text_steps [],
             after_text = True, steps_iter = 1, intent_name = short, response_name = rid\<rparr>))"
    using normalizer_text_buttons
      [of "''en''" "[buttons_message [visit_button]]"
          "text_message []" "buttons_message [visit_button]" "[]"
          "[visit_button]" empty_state info_vars] h2
    by blast
  have m: \<open>button_markup [visit_button] = ''<br><a href="http://x">Visit</a>''\<close>
    by code_simp
  have w: "format_text ''Welcome'' = ''Welcome''"
    by code_simp
  have r: "py_replace ''utter_info'' ''utter_info'' ''responses:\<newline>  utter_info:\<newline>''
      = ''responses:\<newline>  utter_info:\<newline>''"
    by code_simp
  have s: "after_slash ''info'' = ''info''"
    by code_simp
  show ?thesis
    unfolding e1 e2
    by (simp add: m w r s info_vars_def empty_state_def text_steps_def Let_def
          register_intent_def startswith_any_def create_new_rule_def)
qed

subsection \<open>Only the first response of an intent is read\<close>

lemma responses_of_file_first_response:
  "agree_on_first_response f1 f2 \<Longrightarrow>
   responses_of_file language f1 sr = responses_of_file language f2 sr"
  by (cases sr)
     (auto simp: agree_on_first_response_def responses_of_file_def Let_def
        split: file_content.splits list.splits)

lemma responses_loop_first_response:
  "list_all2 agree_on_first_response files1 files2 \<Longrightarrow>
   responses_loop language files1 sr = responses_loop language files2 sr"
proof (induction files1 files2 arbitrary: sr rule: list_all2_induct)
  case Nil
  then show ?case by simp
next
  case (Cons f1 fs1 f2 fs2)
  obtain st rc where sr: "sr = (st, rc)" by (cases sr)
  show ?case
    using Cons.IH responses_of_file_first_response [OF Cons.hyps(1), of language "(st, rc)"]
    by (simp add: sr split: prod.splits option.splits)
qed

text \<open>
  C9. Two intent directories whose files agree pairwise on the name and on the first
  entry of the \<open>responses\<close> list give the same responses content and leave the same
  globals, the accumulated rules among them: the later entries of \<open>responses\<close> are never
  read.
\<close>

theorem responses_depend_on_first_response_only:
  "list_all2 agree_on_first_response files1 files2 \<Longrightarrow>
   get_responses language files1 st = get_responses language files2 st"
  by (simp add: get_responses_def responses_loop_first_response)

theorem responses_depend_on_first_response_only_witness:
  "get_responses ''en''
     [\<lparr>f_name = ''info.json'',
       f_content = Intent [[buttons_message [visit_button]], [text_message [''never read'']]]\<rparr>]
     empty_state
   = get_responses ''en''
     [\<lparr>f_name = ''info.json'', f_content = Intent [[buttons_message [visit_button]]]\<rparr>]
     empty_state"
proof -
  have "list_all2 agree_on_first_response
     [\<lparr>f_name = ''info.json'',
       f_content = Intent [[buttons_message [visit_button]], [text_message [''never read'']]]\<rparr>]
     [\<lparr>f_name = ''info.json'', f_content = Intent [[buttons_message [visit_button]]]\<rparr>]"
    by (simp add: agree_on_first_response_def)
  then show ?thesis
    by (rule responses_depend_on_first_response_only)
qed

subsection \<open>Rule Synthesizer\<close>

lemma rules_loop_filter:
  "rules_loop rc il acc = acc @ concat (map default_rule (filter (\<lambda>intent. \<not> sublist intent rc) il))"
  by (induction il arbitrary: acc) simp_all

lemma new_rules_filter:
  "new_rules il rc
     = ''rules:\<newline>'' @ rc @ concat (map default_rule (filter (\<lambda>intent. \<not> sublist intent rc) il))"
  by (simp add: new_rules_def rules_loop_filter)

text \<open>An intent that has a rule in \<open>RULES_CONTENT\<close> gets no default rule.\<close>

lemma rule_in_rules_content_takes_precedence:
  assumes "rc = before @ create_new_rule [] rname iname @ after"
  shows "new_rules il rc = new_rules (filter (\<lambda>i. i \<noteq> iname) il) rc"
proof -
  have "rc = (before @ ''\<newline>- rule: Respond to '') @ iname
               @ (''\<newline>  steps:\<newline>  - intent: '' @ iname @ ''\<newline>  - action: '' @ rname @ ''\<newline>'' @ after)"
    using assms by (simp add: create_new_rule_def)
  then have "sublist iname rc"
    unfolding sublist_def by blast
  then have "filter (\<lambda>i. \<not> sublist i rc) (filter (\<lambda>i. i \<noteq> iname) il)
               = filter (\<lambda>i. \<not> sublist i rc) il"
    by (induction il) auto
  then show ?thesis
    by (simp add: new_rules_filter)
qed

text \<open>
  C3 on the sample directory, a run in which \<open>ok_empty_files\<close> asks nothing. After the
  corpus and the domain are generated, \<open>INTENT_LIST\<close> is \<open>g\<close>, \<open>to\<close>, \<open>a\<close> and
  \<open>RULES_CONTENT\<close> holds one rule, for \<open>a\<close>. No rule covers the intent \<open>to\<close>, and the
  rules document gets none for it: \<open>to\<close> occurs in the text \<open>Respond to a\<close>, and the test
  \<open>intent in RULES_CONTENT\<close> skips it.
\<close>

theorem rule_synthesizer_skips_uncovered_intent:
  "ok_empty_files (\<lambda>name. False) ''en'' sample_directory = Some sample_directory \<and>
   map_option INTENT_LIST (main (\<lambda>name. False) ''en'' sample_directory empty_state)
     = Some [''g'', ''to'', ''a''] \<and>
   map_option RULES_CONTENT (main (\<lambda>name. False) ''en'' sample_directory empty_state)
     = Some sample_rules_content \<and>
   map_option rules_yml (main (\<lambda>name. False) ''en'' sample_directory empty_state)
     = Some (Some (version_header @ ''rules:\<newline>'' @ sample_rules_content @ default_rule ''g'')) \<and>
   \<not> sublist ''Respond to to'' (version_header @ ''rules:\<newline>'' @ sample_rules_content @ default_rule ''g'') \<and>
   sublist ''to'' sample_rules_content \<and>
   new_rules [''g'', ''to'', ''a''] sample_rules_content
     = ''rules:\<newline>'' @ sample_rules_content @ default_rule ''g''"
  by code_simp

theorem rule_synthesizer_skips_uncovered_intent_witness:
  "map_option INTENT_LIST (main (\<lambda>name. False) ''en'' sample_directory empty_state)
     = Some [''g'', ''to'', ''a'']"
  using rule_synthesizer_skips_uncovered_intent by blast

text \<open>
  A prefix that is itself \<open>OTHER\<close> puts the default-group marker into the groups twice,
  and the loop over \<open>INTENT_LIST\<close> then writes the default rule twice.
\<close>

lemma rule_synthesizer_repeats_duplicate_entry:
  "extract_groups [''OTHER-x_usersays_en.json'', ''OTHER-y_usersays_en.json'',
                   ''p_usersays_en.json'', ''q_usersays_en.json''] = [''OTHER'', ''OTHER''] \<and>
   new_rules [''OTHER'', ''OTHER''] [] = ''rules:\<newline>'' @ default_rule ''OTHER'' @ default_rule ''OTHER''"
  by code_simp

subsection \<open>Registration into INTENT_LIST\<close>























subsection \<open>The corpus document after a rename\<close>

text \<open>
  \<open>rename_intent\<close> replaces the namespaced identifier throughout \<open>nlu.yml\<close>, the text
  before the anchor included.
\<close>

lemma rename_intent_rewrites_whole_corpus:
  "nlu_yml (snd (rename_intent ''g/a''
      (empty_state\<lparr>nlu_yml := Some ''# about g/a\<newline>nlu:\<newline>- intent: g/a\<newline>''\<rparr>)))
     = Some ''# about a\<newline>nlu:\<newline>- intent: a\<newline>''"
  by code_simp

end
